theory Spec2Isabelle
  imports Main "HOL-Library.Sublist" "HOL-Library.AList" "HOL-Library.Multiset"
begin

section \<open>Strings\<close>

text \<open>
  Python strings are modelled as \<^typ>\<open>string\<close>. A \<^typ>\<open>char\<close> has eight bits, so the
  strings of this development are the Python strings whose code points are below 256;
  the string methods below are \<open>str.lower\<close>, \<open>str.endswith\<close>, \<open>str.splitlines\<close>,
  \<open>str.replace\<close>, \<open>str.split\<close>, \<open>str.join\<close> and \<open>str(n)\<close> on that range.
\<close>

definition lower_char :: "char \<Rightarrow> char" where
  "lower_char c =
     (let n = (of_char c :: nat)
      in if (65 \<le> n \<and> n \<le> 90) \<or> (192 \<le> n \<and> n \<le> 214) \<or> (216 \<le> n \<and> n \<le> 222)
         then char_of (n + 32) else c)"

definition lower :: "string \<Rightarrow> string" where
  "lower s = map lower_char s"

definition endswith :: "string \<Rightarrow> string \<Rightarrow> bool" where
  "endswith s ext = (length ext \<le> length s \<and> drop (length s - length ext) s = ext)"

definition is_linebreak :: "char \<Rightarrow> bool" where
  "is_linebreak c =
     (c \<in> {CHR 0x0A, CHR 0x0B, CHR 0x0C, CHR 0x0D, CHR 0x1C, CHR 0x1D, CHR 0x1E, CHR 0x85})"

text \<open>
  \<open>splitlines_from cur s\<close>: the lines of \<open>s\<close>, \<open>cur\<close> being the part of the current line
  already read. A carriage return followed by a line feed is one boundary; a final line
  is emitted only when it is not empty.
\<close>

fun splitlines_from :: "string \<Rightarrow> string \<Rightarrow> string list" where
  "splitlines_from cur [] = (if cur = [] then [] else [cur])"
| "splitlines_from cur [c] = (if is_linebreak c then [cur] else [cur @ [c]])"
| "splitlines_from cur (c # d # cs) =
     (if c = CHR 0x0D \<and> d = CHR 0x0A then cur # splitlines_from [] cs
      else if is_linebreak c then cur # splitlines_from [] (d # cs)
      else splitlines_from (cur @ [c]) (d # cs))"

definition splitlines :: "string \<Rightarrow> string list" where
  "splitlines s = splitlines_from [] s"

text \<open>
  \<open>s.replace(old, new)\<close>: every occurrence of \<open>old\<close>, leftmost first and without
  overlap, becomes \<open>new\<close>; an empty \<open>old\<close> matches before every character and at the end.
\<close>

function replace :: "string \<Rightarrow> string \<Rightarrow> string \<Rightarrow> string" where
  "replace old new s =
     (if old = [] then new @ concat (map (\<lambda>c. c # new) s)
      else if prefix old s then new @ replace old new (drop (length old) s)
      else (case s of [] \<Rightarrow> [] | c # cs \<Rightarrow> c # replace old new cs))"
  by pat_completeness auto
termination
  by (relation "measure (\<lambda>(old, new, s). length s)") (auto simp: prefix_def)

declare replace.simps [simp del]

function str_nat :: "nat \<Rightarrow> string" where
  "str_nat n =
     (if n < 10 then [char_of (48 + n)]
      else str_nat (n div 10) @ [char_of (48 + n mod 10)])"
  by pat_completeness auto
termination
  by (relation "measure id") auto

declare str_nat.simps [simp del]

text \<open>
  Reading a file opened in text mode (the default \<open>newline=None\<close>) translates every
  carriage return, with the line feed that follows it if there is one, into a line feed.
  Writing, on a POSIX system, leaves the text as it is.
\<close>

fun universal_newlines :: "string \<Rightarrow> string" where
  "universal_newlines [] = []"
| "universal_newlines [c] = (if c = CHR 0x0D then [CHR 0x0A] else [c])"
| "universal_newlines (c # d # cs) =
     (if c = CHR 0x0D \<and> d = CHR 0x0A then CHR 0x0A # universal_newlines cs
      else if c = CHR 0x0D then CHR 0x0A # universal_newlines (d # cs)
      else c # universal_newlines (d # cs))"

text \<open>\<open>s.split('/')\<close> and \<open>'/'.join(parts)\<close>.\<close>

fun split_from :: "string \<Rightarrow> string \<Rightarrow> string list" where
  "split_from cur [] = [cur]"
| "split_from cur (c # cs) =
     (if c = CHR ''/'' then cur # split_from [] cs else split_from (cur @ [c]) cs)"

definition split_sep :: "string \<Rightarrow> string list" where
  "split_sep s = split_from [] s"

fun join_sep :: "string list \<Rightarrow> string" where
  "join_sep [] = []"
| "join_sep [x] = x"
| "join_sep (x # y # xs) = x @ ''/'' @ join_sep (y # xs)"

subsection \<open>Paths (posixpath)\<close>

definition join :: "string \<Rightarrow> string \<Rightarrow> string" where
  "join a b =
     (if prefix ''/'' b then b
      else if a = [] \<or> last a = CHR ''/'' then a @ b
      else a @ ''/'' @ b)"

definition basename :: "string \<Rightarrow> string" where
  "basename p = rev (takeWhile (\<lambda>c. c \<noteq> CHR ''/'') (rev p))"

text \<open>
  \<open>os.path.splitext\<close> on a file name (a name has no separator): the extension starts
  at the last dot, unless only dots stand before it; then there is no extension.
\<close>

definition splitext :: "string \<Rightarrow> string \<times> string" where
  "splitext p =
     (let r = takeWhile (\<lambda>c. c \<noteq> CHR ''.'') (rev p)
      in if length r < length p
            \<and> (\<exists>c \<in> set (take (length p - length r - 1) p). c \<noteq> CHR ''.'')
         then (take (length p - length r - 1) p, drop (length p - length r - 1) p)
         else (p, []))"

text \<open>
  \<open>os.path.normpath\<close>: empty and \<open>.\<close> components go, a \<open>..\<close> takes the component
  before it away (at the root it is dropped, at the start of a relative path it stays);
  exactly two leading slashes are kept as two.
\<close>

fun norm_comps :: "bool \<Rightarrow> string list \<Rightarrow> string list \<Rightarrow> string list" where
  "norm_comps initial_slashes [] new_comps = new_comps"
| "norm_comps initial_slashes (component # comps) new_comps =
     (if component = [] \<or> component = ''.'' then norm_comps initial_slashes comps new_comps
      else if component \<noteq> ''..'' \<or> (\<not> initial_slashes \<and> new_comps = [])
              \<or> (new_comps \<noteq> [] \<and> last new_comps = ''..'')
        then norm_comps initial_slashes comps (new_comps @ [component])
      else if new_comps \<noteq> [] then norm_comps initial_slashes comps (butlast new_comps)
      else norm_comps initial_slashes comps new_comps)"

definition normpath :: "string \<Rightarrow> string" where
  "normpath path =
     (if path = [] then ''.''
      else
        (let initial_slashes =
               (if prefix ''/'' path
                then (if prefix ''//'' path \<and> \<not> prefix ''///'' path then 2 else 1)
                else (0::nat));
             comps = norm_comps (initial_slashes \<noteq> 0) (split_sep path) [];
             p = replicate initial_slashes CHR ''/'' @ join_sep comps
         in if p = [] then ''.'' else p))"

text \<open>
  \<open>os.path.abspath\<close> and \<open>os.path.relpath\<close>, the working directory \<open>os.getcwd()\<close> being
  an argument. \<open>relpath\<close> raises \<open>ValueError\<close> on an empty path: the result \<open>None\<close>.
\<close>

definition abspath :: "string \<Rightarrow> string \<Rightarrow> string" where
  "abspath cwd path = normpath (if prefix ''/'' path then path else join cwd path)"

fun commonprefix :: "string list \<Rightarrow> string list \<Rightarrow> string list" where
  "commonprefix (x # xs) (y # ys) = (if x = y then x # commonprefix xs ys else [])"
| "commonprefix xs ys = []"

definition relpath :: "string \<Rightarrow> string \<Rightarrow> string \<Rightarrow> string option" where
  "relpath cwd path start =
     (if path = [] then None
      else
        (let start_list = filter (\<lambda>x. x \<noteq> []) (split_sep (abspath cwd start));
             path_list = filter (\<lambda>x. x \<noteq> []) (split_sep (abspath cwd path));
             i = length (commonprefix start_list path_list);
             rel_list = replicate (length start_list - i) ''..'' @ drop i path_list
         in if rel_list = [] then Some ''.'' else Some (join_sep rel_list)))"

section \<open>The extension-to-language mapper\<close>

definition extension_map :: "(string \<times> string) list" where
  "extension_map =
     [(''.js'', ''javascript''),
      (''.jsx'', ''jsx''),
      (''.ts'', ''typescript''),
      (''.tsx'', ''tsx''),
      (''.css'', ''css''),
      (''.scss'', ''scss''),
      (''.json'', ''json''),
      (''.md'', ''markdown''),
      (''.env'', ''plaintext''),
      (''.gitignore'', ''plaintext''),
      (''.html'', ''html''),
      (''.xml'', ''xml''),
      (''.yaml'', ''yaml''),
      (''.yml'', ''yaml'')]"

definition map_extension_to_language :: "string \<Rightarrow> string" where
  "map_extension_to_language extension =
     (case map_of extension_map (lower extension) of
        Some lang \<Rightarrow> lang
      | None \<Rightarrow> ''plaintext'')"

text \<open>
  What the specification calls a case-insensitive match: two strings of the same length
  whose characters agree position by position once letter case is ignored.
\<close>

definition same_ignoring_case :: "string \<Rightarrow> string \<Rightarrow> bool" where
  "same_ignoring_case a b = list_all2 (\<lambda>x y. lower_char x = lower_char y) a b"

section \<open>The source tree and the tokenizer\<close>

text \<open>
  What \<open>open(file_path, 'r', encoding='utf-8').read()\<close> gives for a file: its text, a
  \<open>UnicodeDecodeError\<close>, or another \<open>OSError\<close> (a file that cannot be opened).
\<close>

datatype content = Text string | Undecodable | Unreadable

text \<open>
  A directory is the list of its entries in the order the directory listing yields them,
  each a name with a file or a directory. A source tree maps a configured folder name to
  what \<open>os.path.join(src_dir, main_folder)\<close> names, if anything.
\<close>

datatype tree = File content | Dir "(string \<times> tree) list"

type_synonym source = "string \<Rightarrow> tree option"

text \<open>
  \<open>len(tokenizer.encode(content))\<close> of the external tokenizer; \<open>None\<close> when it raises.
\<close>

type_synonym tokenizer = "string \<Rightarrow> nat option"

datatype error = OSError string | TokenizerError string | FileNotFoundError string
  | ValueError string

text \<open>
  The arguments of the run, and the working directory of the process, which
  \<open>os.path.relpath\<close> reads.
\<close>

record config =
  src_dir :: string
  output_dir :: string
  main_folders :: "string list option"
  cwd :: string

section \<open>Per-folder consolidation\<close>

definition extensions :: "string list" where
  "extensions = [''.js'', ''.jsx'', ''.ts'', ''.tsx'', ''.css'', ''.scss'', ''.json'', ''.md'']"

definition default_main_folders :: "string list" where
  "default_main_folders = [''app'', ''components'', ''context'', ''lib'', ''scripts'', ''types'']"

definition dquote :: string where
  "dquote = [CHR 0x22]"

definition squote :: string where
  "squote = [CHR 0x27]"

definition nl :: string where
  "nl = [CHR 0x0A]"

text \<open>
  \<open>os.walk\<close>, top-down: a directory yields its own item, the names (here with their
  contents) of its entries that are not directories, and then the items of its
  subdirectories in listing order, the root of each being \<open>os.path.join\<close> of its
  parent's root and its name.
\<close>

fun nondirs :: "(string \<times> tree) list \<Rightarrow> (string \<times> content) list" where
  "nondirs [] = []"
| "nondirs ((n, File c) # es) = (n, c) # nondirs es"
| "nondirs ((n, Dir sub) # es) = nondirs es"

fun walk :: "string \<Rightarrow> (string \<times> tree) list \<Rightarrow> (string \<times> (string \<times> content) list) list"
  and walk_dirs :: "string \<Rightarrow> (string \<times> tree) list \<Rightarrow> (string \<times> (string \<times> content) list) list"
where
  "walk root es = (root, nondirs es) # walk_dirs root es"
| "walk_dirs root [] = []"
| "walk_dirs root ((n, File c) # es) = walk_dirs root es"
| "walk_dirs root ((n, Dir sub) # es) = walk (join root n) sub @ walk_dirs root es"

record folder_acc =
  out_text :: string
  folder_lines :: nat
  folder_tokens :: nat
  included_files_count :: nat
  printed :: "string list"

definition file_header :: "string \<Rightarrow> string \<Rightarrow> string" where
  "file_header relative_path file_name =
     ''// Directory: '' @ relative_path @ '', File: '' @ file_name @ nl
     @ ''// File Type: '' @ drop 1 (snd (splitext file_name)) @ nl"

definition fenced :: "string \<Rightarrow> string \<Rightarrow> string" where
  "fenced file_name content =
     ''```'' @ map_extension_to_language (snd (splitext file_name)) @ nl
     @ content
     @ nl @ ''```'' @ nl @ nl"

definition skip_placeholder :: string where
  "skip_placeholder = ''// [Binary file or non-UTF-8 encoding, content skipped]'' @ nl @ nl"

definition write_file :: "tokenizer \<Rightarrow> string \<Rightarrow> string \<Rightarrow> string \<Rightarrow> content \<Rightarrow> folder_acc \<Rightarrow> error + folder_acc" where
  "write_file tok root relative_path file_name c acc =
     (let file_path = join root file_name;
          acc1 = acc\<lparr>out_text := out_text acc @ file_header relative_path file_name\<rparr>
      in case c of
           Unreadable \<Rightarrow> Inl (OSError file_path)
         | Undecodable \<Rightarrow>
             Inr (acc1\<lparr>out_text := out_text acc1 @ skip_placeholder,
                       printed := printed acc1 @
                         [''Skipped '' @ squote @ relative_path @ ''/'' @ file_name @ squote
                          @ '' (binary or encoding issues)'']\<rparr>)
         | Text content \<Rightarrow>
             (let lines = splitlines content
              in case tok content of
                   None \<Rightarrow> Inl (TokenizerError file_path)
                 | Some tokens \<Rightarrow>
                     Inr (acc1\<lparr>out_text := out_text acc1 @ fenced file_name content,
                               folder_lines := folder_lines acc1 + length lines,
                               folder_tokens := folder_tokens acc1 + tokens,
                               printed := printed acc1 @
                                 [''Processed '' @ squote @ relative_path @ ''/'' @ file_name @ squote
                                  @ '' ('' @ str_nat (length lines) @ '' lines, ''
                                  @ str_nat tokens @ '' tokens)'']\<rparr>)))"

fun write_files :: "tokenizer \<Rightarrow> string \<Rightarrow> string \<Rightarrow> (string \<times> content) list \<Rightarrow> folder_acc \<Rightarrow> error + folder_acc" where
  "write_files tok root relative_path [] acc = Inr acc"
| "write_files tok root relative_path ((file_name, c) # rest) acc =
     (case write_file tok root relative_path file_name c acc of
        Inl e \<Rightarrow> Inl e
      | Inr acc' \<Rightarrow> write_files tok root relative_path rest acc')"

definition included :: "string \<Rightarrow> bool" where
  "included f = list_ex (\<lambda>ext. endswith f ext) extensions"

fun consolidate_walk :: "tokenizer \<Rightarrow> config \<Rightarrow> (string \<times> (string \<times> content) list) list \<Rightarrow> folder_acc \<Rightarrow> error + folder_acc" where
  "consolidate_walk tok cfg [] acc = Inr acc"
| "consolidate_walk tok cfg ((root, files) # rest) acc =
     (case relpath (cwd cfg) root (src_dir cfg) of
        None \<Rightarrow> Inl (ValueError ''no path specified'')
      | Some relative_path \<Rightarrow>
          (let included_files = filter (\<lambda>(f, c). included f) files;
               acc1 = acc\<lparr>included_files_count :=
                          included_files_count acc + length included_files\<rparr>
           in if included_files = [] then consolidate_walk tok cfg rest acc1
              else (case write_files tok root relative_path included_files acc1 of
                      Inl e \<Rightarrow> Inl e
                    | Inr acc2 \<Rightarrow> consolidate_walk tok cfg rest acc2)))"

definition old_header :: "string \<Rightarrow> string" where
  "old_header main_folder =
     ''// Consolidated files from the '' @ dquote @ main_folder @ dquote @ '' folder''"

definition new_header :: "nat \<Rightarrow> string \<Rightarrow> string" where
  "new_header n main_folder =
     ''// Consolidated '' @ str_nat n @ '' files from the '' @ dquote @ main_folder @ dquote
     @ '' folder''"

definition second_header :: "string \<Rightarrow> string" where
  "second_header main_folder =
     ''// This file contains all code files within the '' @ dquote @ main_folder @ dquote
     @ '' folder and its subfolders.'' @ nl @ nl"

section \<open>The run\<close>

text \<open>
  The state of a run: the running totals, the folder summary (a Python dictionary: an
  association list in insertion order, a key stored again keeping its place), the list
  of artifact paths, the files of the output side (path to the text written) and the
  status stream. The artifacts are read back in text mode.
\<close>

record run_state =
  total_lines_of_code :: nat
  total_tokens :: nat
  folder_summary :: "(string \<times> (nat \<times> nat)) list"
  consolidated_files :: "string list"
  files :: "string \<Rightarrow> string option"
  log :: "string list"

definition read_text :: "(string \<Rightarrow> string option) \<Rightarrow> string \<Rightarrow> error + string" where
  "read_text fs path =
     (case fs path of
        None \<Rightarrow> Inl (FileNotFoundError path)
      | Some s \<Rightarrow> Inr (universal_newlines s))"

definition artifact_path :: "config \<Rightarrow> string \<Rightarrow> string" where
  "artifact_path cfg main_folder = join (output_dir cfg) (main_folder @ ''_consolidated.txt'')"

definition process_folder :: "tokenizer \<Rightarrow> config \<Rightarrow> source \<Rightarrow> string \<Rightarrow> run_state \<Rightarrow> error + run_state" where
  "process_folder tok cfg src main_folder st =
     (case src main_folder of
        Some (Dir entries) \<Rightarrow>
          (let main_folder_path = join (src_dir cfg) main_folder;
               output_file = artifact_path cfg main_folder;
               acc0 = \<lparr>out_text = old_header main_folder @ nl @ second_header main_folder,
                       folder_lines = 0, folder_tokens = 0, included_files_count = 0,
                       printed = []\<rparr>
           in case consolidate_walk tok cfg (walk main_folder_path entries) acc0 of
                Inl e \<Rightarrow> Inl e
              | Inr acc \<Rightarrow>
                  (let fs1 = (files st)(output_file \<mapsto> out_text acc)
                   in case read_text fs1 output_file of
                        Inl e \<Rightarrow> Inl e
                      | Inr content \<Rightarrow>
                          Inr (st\<lparr>total_lines_of_code := total_lines_of_code st + folder_lines acc,
                                  total_tokens := total_tokens st + folder_tokens acc,
                                  folder_summary :=
                                    AList.update main_folder (folder_lines acc, folder_tokens acc)
                                      (folder_summary st),
                                  consolidated_files := consolidated_files st @ [output_file],
                                  files := fs1(output_file \<mapsto>
                                    replace (old_header main_folder)
                                      (new_header (included_files_count acc) main_folder) content),
                                  log := log st @ printed acc @
                                    [nl @ ''Consolidated '' @ str_nat (included_files_count acc)
                                     @ '' files from '' @ squote @ main_folder @ squote
                                     @ '' folder: '' @ output_file]\<rparr>)))
      | _ \<Rightarrow>
          Inr (st\<lparr>log := log st @
                 [''Warning: Folder '' @ squote @ main_folder @ squote
                  @ '' does not exist in '' @ src_dir cfg]\<rparr>))"

fun process_folders :: "tokenizer \<Rightarrow> config \<Rightarrow> source \<Rightarrow> string list \<Rightarrow> run_state \<Rightarrow> error + run_state" where
  "process_folders tok cfg src [] st = Inr st"
| "process_folders tok cfg src (main_folder # rest) st =
     (case process_folder tok cfg src main_folder st of
        Inl e \<Rightarrow> Inl e
      | Inr st' \<Rightarrow> process_folders tok cfg src rest st')"

section \<open>Master composition and report\<close>

definition folder_name_of :: "string \<Rightarrow> string" where
  "folder_name_of cf = replace ''_consolidated.txt'' [] (basename cf)"

definition start_marker :: "string \<Rightarrow> string" where
  "start_marker folder_name = ''// ===== Start of '' @ folder_name @ '' folder ====='' @ nl @ nl"

definition end_marker :: "string \<Rightarrow> string" where
  "end_marker folder_name = nl @ ''// ===== End of '' @ folder_name @ '' folder ====='' @ nl @ nl"

fun master_sections :: "(string \<Rightarrow> string option) \<Rightarrow> string list \<Rightarrow> error + string" where
  "master_sections fs [] = Inr []"
| "master_sections fs (cf # rest) =
     (case read_text fs cf of
        Inl e \<Rightarrow> Inl e
      | Inr content \<Rightarrow>
          (case master_sections fs rest of
             Inl e \<Rightarrow> Inl e
           | Inr others \<Rightarrow>
               Inr (start_marker (folder_name_of cf) @ content @ end_marker (folder_name_of cf)
                    @ others)))"

definition manifest :: "string list \<Rightarrow> string" where
  "manifest cfs =
     ''// This master file consolidates '' @ str_nat (length cfs)
       @ '' main folders from the src directory.'' @ nl
     @ ''// The following folder consolidations are included:'' @ nl
     @ concat (map (\<lambda>cf. ''// - '' @ basename cf @ nl) cfs)
     @ nl"

definition statistics :: "nat \<Rightarrow> nat \<Rightarrow> string" where
  "statistics total_lines total_toks =
     ''// Project Statistics:'' @ nl
     @ ''// - Total lines of code: '' @ str_nat total_lines @ nl
     @ ''// - Total tokens: '' @ str_nat total_toks @ nl @ nl"

definition master_path :: "config \<Rightarrow> string" where
  "master_path cfg = join (output_dir cfg) ''master_consolidated.txt''"

text \<open>
  Opening the master for writing truncates it; the artifacts are then read while the
  master is being written. Should an artifact have the master's own path, the model
  reads the file as it stands after the truncation.
\<close>

definition write_master :: "config \<Rightarrow> run_state \<Rightarrow> error + run_state" where
  "write_master cfg st =
     (let master_file_path = master_path cfg;
          fs0 = (files st)(master_file_path \<mapsto> [])
      in case master_sections fs0 (consolidated_files st) of
           Inl e \<Rightarrow> Inl e
         | Inr sections \<Rightarrow>
             Inr (st\<lparr>files := fs0(master_file_path \<mapsto>
                       manifest (consolidated_files st)
                       @ statistics (total_lines_of_code st) (total_tokens st)
                       @ sections),
                     log := log st @ [nl @ ''Master consolidated file created: '' @ master_file_path]\<rparr>))"

definition report :: "run_state \<Rightarrow> run_state" where
  "report st =
     st\<lparr>log := log st
        @ [nl @ ''Lines of Code and Token Summary:'']
        @ map (\<lambda>(folder, (lines, toks)).
                 ''  Folder '' @ squote @ folder @ squote @ '': '' @ str_nat lines @ '' lines, ''
                 @ str_nat toks @ '' tokens'') (folder_summary st)
        @ [''Total lines of code: '' @ str_nat (total_lines_of_code st),
           ''Total tokens: '' @ str_nat (total_tokens st)]\<rparr>"

definition initial_state :: "(string \<Rightarrow> string option) \<Rightarrow> run_state" where
  "initial_state fs =
     \<lparr>total_lines_of_code = 0, total_tokens = 0, folder_summary = [],
      consolidated_files = [], files = fs, log = []\<rparr>"

text \<open>
  The whole run, from the files \<open>fs\<close> already on the output side. Creating the output
  directory and its message are not modelled.
\<close>

definition consolidate_nextjs_files :: "tokenizer \<Rightarrow> config \<Rightarrow> source \<Rightarrow> (string \<Rightarrow> string option) \<Rightarrow> error + run_state" where
  "consolidate_nextjs_files tok cfg src fs =
     (let folders = (case main_folders cfg of None \<Rightarrow> default_main_folders | Some l \<Rightarrow> l)
      in case process_folders tok cfg src folders (initial_state fs) of
           Inl e \<Rightarrow> Inl e
         | Inr st \<Rightarrow>
             (case write_master cfg st of
                Inl e \<Rightarrow> Inl e
              | Inr st' \<Rightarrow> Inr (report st')))"

section \<open>What a folder contributes\<close>

text \<open>
  The path a directory is announced under: \<open>os.path.relpath(root, src_dir)\<close>.
\<close>

definition label :: "config \<Rightarrow> string \<Rightarrow> string" where
  "label cfg root = (case relpath (cwd cfg) root (src_dir cfg) of Some r \<Rightarrow> r | None \<Rightarrow> [])"

text \<open>A walk none of whose roots is the empty path.\<close>

definition rooted :: "(string \<times> (string \<times> content) list) list \<Rightarrow> bool" where
  "rooted items = list_all (\<lambda>(root, files). root \<noteq> []) items"

text \<open>
  The files of a walk that pass the extension filter, in the order the walk meets them,
  each with the relative path of its directory.
\<close>

definition matched :: "config \<Rightarrow> (string \<times> (string \<times> content) list) list \<Rightarrow> (string \<times> string \<times> content) list" where
  "matched cfg items =
     concat (map (\<lambda>(root, files).
       map (\<lambda>(f, c). (label cfg root, f, c)) (filter (\<lambda>(f, c). included f) files)) items)"

definition folder_entries :: "source \<Rightarrow> string \<Rightarrow> (string \<times> tree) list" where
  "folder_entries src main_folder = (case src main_folder of Some (Dir entries) \<Rightarrow> entries | _ \<Rightarrow> [])"

definition is_dir :: "source \<Rightarrow> string \<Rightarrow> bool" where
  "is_dir src main_folder = (case src main_folder of Some (Dir entries) \<Rightarrow> True | _ \<Rightarrow> False)"

definition matched_files :: "config \<Rightarrow> source \<Rightarrow> string \<Rightarrow> (string \<times> string \<times> content) list" where
  "matched_files cfg src main_folder =
     matched cfg (walk (join (src_dir cfg) main_folder) (folder_entries src main_folder))"


text \<open>The block one matched file leaves in the artifact, and what it adds to the counts.\<close>

fun block_text :: "string \<times> string \<times> content \<Rightarrow> string" where
  "block_text (relative_path, file_name, Text s) = file_header relative_path file_name @ fenced file_name s"
| "block_text (relative_path, file_name, Undecodable) = file_header relative_path file_name @ skip_placeholder"
| "block_text (relative_path, file_name, Unreadable) = file_header relative_path file_name"

fun file_lines :: "string \<times> string \<times> content \<Rightarrow> nat" where
  "file_lines (relative_path, file_name, Text s) = length (splitlines s)"
| "file_lines (relative_path, file_name, c) = 0"

fun file_tokens :: "tokenizer \<Rightarrow> string \<times> string \<times> content \<Rightarrow> nat" where
  "file_tokens tok (relative_path, file_name, Text s) = (case tok s of Some n \<Rightarrow> n | None \<Rightarrow> 0)"
| "file_tokens tok (relative_path, file_name, c) = 0"

fun file_message :: "tokenizer \<Rightarrow> string \<times> string \<times> content \<Rightarrow> string" where
  "file_message tok (relative_path, file_name, Text s) =
     ''Processed '' @ squote @ relative_path @ ''/'' @ file_name @ squote
     @ '' ('' @ str_nat (length (splitlines s)) @ '' lines, ''
     @ str_nat (case tok s of Some n \<Rightarrow> n | None \<Rightarrow> 0) @ '' tokens)''"
| "file_message tok (relative_path, file_name, c) =
     ''Skipped '' @ squote @ relative_path @ ''/'' @ file_name @ squote
     @ '' (binary or encoding issues)''"

text \<open>
  The texts of the matched files that decoded.
\<close>

fun decoded :: "(string \<times> string \<times> content) list \<Rightarrow> string list" where
  "decoded [] = []"
| "decoded ((relative_path, file_name, Text s) # ms) = s # decoded ms"
| "decoded ((relative_path, file_name, Undecodable) # ms) = decoded ms"
| "decoded ((relative_path, file_name, Unreadable) # ms) = decoded ms"

text \<open>A file the run gets past: it opens, and its text, if it decodes, is tokenized.\<close>

fun passes :: "tokenizer \<Rightarrow> string \<times> string \<times> content \<Rightarrow> bool" where
  "passes tok (relative_path, file_name, Text s) = (tok s \<noteq> None)"
| "passes tok (relative_path, file_name, Undecodable) = True"
| "passes tok (relative_path, file_name, Unreadable) = False"

definition written_text :: "string \<Rightarrow> (string \<times> string \<times> content) list \<Rightarrow> string" where
  "written_text main_folder ms =
     old_header main_folder @ nl @ second_header main_folder @ concat (map block_text ms)"

text \<open>
  The artifact of a folder: what the walk wrote, after the header rewrite; and the
  folder's line and token counts.
\<close>

definition artifact_text :: "config \<Rightarrow> source \<Rightarrow> string \<Rightarrow> string" where
  "artifact_text cfg src main_folder =
     replace (old_header main_folder)
       (new_header (length (matched_files cfg src main_folder)) main_folder)
       (universal_newlines (written_text main_folder (matched_files cfg src main_folder)))"

definition lines_of :: "config \<Rightarrow> source \<Rightarrow> string \<Rightarrow> nat" where
  "lines_of cfg src main_folder = sum_list (map file_lines (matched_files cfg src main_folder))"

definition tokens_of :: "tokenizer \<Rightarrow> config \<Rightarrow> source \<Rightarrow> string \<Rightarrow> nat" where
  "tokens_of tok cfg src main_folder =
     sum_list (map (file_tokens tok) (matched_files cfg src main_folder))"

text \<open>
  A folder the run gets past: its path is not empty (\<open>relpath\<close> raises on an empty
  path) and every matched file passes.
\<close>

definition folder_passes :: "tokenizer \<Rightarrow> config \<Rightarrow> source \<Rightarrow> string \<Rightarrow> bool" where
  "folder_passes tok cfg src main_folder =
     (join (src_dir cfg) main_folder \<noteq> []
      \<and> list_all (passes tok) (matched_files cfg src main_folder))"

text \<open>
  The configured folders, and those among them that are directories: the folders the
  run processes, in configured order.
\<close>

definition configured :: "config \<Rightarrow> string list" where
  "configured cfg = (case main_folders cfg of None \<Rightarrow> default_main_folders | Some l \<Rightarrow> l)"

definition processed :: "source \<Rightarrow> string list \<Rightarrow> string list" where
  "processed src folders = filter (is_dir src) folders"



section \<open>The run in closed form\<close>

text \<open>
  The state a loop leaves when no file stops it, written without the loop: these are
  what the functions above are proved to return, and the theorems are read off them.
\<close>

definition after_files :: "tokenizer \<Rightarrow> (string \<times> string \<times> content) list \<Rightarrow> folder_acc \<Rightarrow> folder_acc" where
  "after_files tok ms acc =
     acc\<lparr>out_text := out_text acc @ concat (map block_text ms),
         folder_lines := folder_lines acc + sum_list (map file_lines ms),
         folder_tokens := folder_tokens acc + sum_list (map (file_tokens tok) ms),
         printed := printed acc @ map (file_message tok) ms\<rparr>"

definition after_walk :: "tokenizer \<Rightarrow> (string \<times> string \<times> content) list \<Rightarrow> folder_acc \<Rightarrow> folder_acc" where
  "after_walk tok ms acc =
     acc\<lparr>out_text := out_text acc @ concat (map block_text ms),
         folder_lines := folder_lines acc + sum_list (map file_lines ms),
         folder_tokens := folder_tokens acc + sum_list (map (file_tokens tok) ms),
         included_files_count := included_files_count acc + length ms,
         printed := printed acc @ map (file_message tok) ms\<rparr>"

definition after_folder :: "tokenizer \<Rightarrow> config \<Rightarrow> source \<Rightarrow> string \<Rightarrow> run_state \<Rightarrow> run_state" where
  "after_folder tok cfg src main_folder st =
     (if is_dir src main_folder
      then st\<lparr>total_lines_of_code := total_lines_of_code st + lines_of cfg src main_folder,
              total_tokens := total_tokens st + tokens_of tok cfg src main_folder,
              folder_summary :=
                AList.update main_folder (lines_of cfg src main_folder, tokens_of tok cfg src main_folder)
                  (folder_summary st),
              consolidated_files := consolidated_files st @ [artifact_path cfg main_folder],
              files := (files st)(artifact_path cfg main_folder \<mapsto> artifact_text cfg src main_folder),
              log := log st @ map (file_message tok) (matched_files cfg src main_folder) @
                [nl @ ''Consolidated '' @ str_nat (length (matched_files cfg src main_folder))
                 @ '' files from '' @ squote @ main_folder @ squote
                 @ '' folder: '' @ artifact_path cfg main_folder]\<rparr>
      else st\<lparr>log := log st @
             [''Warning: Folder '' @ squote @ main_folder @ squote
              @ '' does not exist in '' @ src_dir cfg]\<rparr>)"

text \<open>
  The artifacts of a list of folders, stored in order; the sections of the master, each
  artifact read from the given files.
\<close>

definition store_artifacts :: "config \<Rightarrow> source \<Rightarrow> string list \<Rightarrow> (string \<Rightarrow> string option) \<Rightarrow> (string \<Rightarrow> string option)" where
  "store_artifacts cfg src folders fs =
     fold (\<lambda>f m. m(artifact_path cfg f \<mapsto> artifact_text cfg src f)) folders fs"

definition sections_text :: "(string \<Rightarrow> string option) \<Rightarrow> string list \<Rightarrow> string" where
  "sections_text fs cfs =
     concat (map (\<lambda>cf. start_marker (folder_name_of cf) @ universal_newlines (the (fs cf))
                        @ end_marker (folder_name_of cf)) cfs)"

definition master_text :: "config \<Rightarrow> run_state \<Rightarrow> string" where
  "master_text cfg st =
     manifest (consolidated_files st)
     @ statistics (total_lines_of_code st) (total_tokens st)
     @ sections_text ((files st)(master_path cfg \<mapsto> [])) (consolidated_files st)"

definition after_master :: "config \<Rightarrow> run_state \<Rightarrow> run_state" where
  "after_master cfg st =
     st\<lparr>files := (files st)(master_path cfg \<mapsto> master_text cfg st),
        log := log st @ [nl @ ''Master consolidated file created: '' @ master_path cfg]\<rparr>"

definition after_run :: "tokenizer \<Rightarrow> config \<Rightarrow> source \<Rightarrow> (string \<Rightarrow> string option) \<Rightarrow> run_state" where
  "after_run tok cfg src fs =
     report (after_master cfg (fold (after_folder tok cfg src) (configured cfg) (initial_state fs)))"

definition run_passes :: "tokenizer \<Rightarrow> config \<Rightarrow> source \<Rightarrow> bool" where
  "run_passes tok cfg src = list_all (folder_passes tok cfg src) (processed src (configured cfg))"

text \<open>
  What a run writes, as a map from paths to texts that does not mention the files that
  were there before.
\<close>

definition master_sections_text :: "config \<Rightarrow> source \<Rightarrow> string" where
  "master_sections_text cfg src =
     sections_text
       ((store_artifacts cfg src (processed src (configured cfg)) Map.empty)(master_path cfg \<mapsto> []))
       (map (artifact_path cfg) (processed src (configured cfg)))"

definition outputs :: "tokenizer \<Rightarrow> config \<Rightarrow> source \<Rightarrow> (string \<Rightarrow> string option)" where
  "outputs tok cfg src =
     (store_artifacts cfg src (processed src (configured cfg)) Map.empty)
       (master_path cfg \<mapsto>
          manifest (map (artifact_path cfg) (processed src (configured cfg)))
          @ statistics (sum_list (map (lines_of cfg src) (processed src (configured cfg))))
              (sum_list (map (tokens_of tok cfg src) (processed src (configured cfg))))
          @ master_sections_text cfg src)"

section \<open>Concrete source trees\<close>

text \<open>
  A folder \<open>lib\<close> with two texts and, in a subfolder, a matched file that does not
  decode next to one that is not matched; a folder \<open>docs\<close> with no matched file (the
  extension of \<open>README.MD\<close> is in capitals); a plain file \<open>f\<close>. The tokenizer counts
  characters.
\<close>

definition ex_lib :: "(string \<times> tree) list" where
  "ex_lib =
     [(''a.ts'', File (Text (''x'' @ nl @ ''y''))),
      (''sub'', Dir [(''c.json'', File Undecodable), (''b.bin'', File Undecodable)]),
      (''readme.md'', File (Text ''hi''))]"

definition ex_docs :: "(string \<times> tree) list" where
  "ex_docs = [(''README.MD'', File (Text ''hi'')), (''img'', Dir [])]"

definition ex_src :: source where
  "ex_src = [''lib'' \<mapsto> Dir ex_lib, ''docs'' \<mapsto> Dir ex_docs, ''f'' \<mapsto> File (Text ''a'')]"

definition ex_cfg :: config where
  "ex_cfg = \<lparr>src_dir = ''src'', output_dir = ''out'',
             main_folders = Some [''lib'', ''missing'', ''docs'', ''f''],
             cwd = ''/home/dev/roomies''\<rparr>"

definition ex_tok :: tokenizer where
  "ex_tok s = Some (length s)"


text \<open>
  The folder \<open>lib\<close> configured twice.
\<close>

definition dup_cfg :: config where
  "dup_cfg = \<lparr>src_dir = ''src'', output_dir = ''out'', main_folders = Some [''lib'', ''lib''],
              cwd = ''/home/dev/roomies''\<rparr>"

text \<open>
  A folder \<open>app\<close> with one file whose text is the header line as first written.
\<close>

definition bug_src :: source where
  "bug_src = [''app'' \<mapsto> Dir [(''notes.md'', File (Text (old_header ''app'')))]]"

definition bug_cfg :: config where
  "bug_cfg = \<lparr>src_dir = ''src'', output_dir = ''out'', main_folders = Some [''app''],
              cwd = ''/home/dev/roomies''\<rparr>"

text \<open>
  A folder whose name holds the artifact suffix.
\<close>

definition cx_src :: source where
  "cx_src = [''a_consolidated.txt'' \<mapsto> Dir []]"

definition cx_cfg :: config where
  "cx_cfg = \<lparr>src_dir = ''src'', output_dir = ''out'',
             main_folders = Some [''a_consolidated.txt''], cwd = ''/home/dev/roomies''\<rparr>"









section \<open>Properties of the mapper\<close>

lemma same_ignoring_case_lower: "same_ignoring_case a b \<longleftrightarrow> lower a = lower b"
  unfolding same_ignoring_case_def lower_def
  by (induction a arbitrary: b) (auto simp: list_all2_Cons1)

lemma extension_map_keys_lower: "(k, v) \<in> set extension_map \<Longrightarrow> lower k = k"
  by (auto simp: extension_map_def lower_def lower_char_def)

lemma extension_map_distinct: "distinct (map fst extension_map)"
  by (simp add: extension_map_def)

text \<open>
  Claim C8. The mapper is a total function of its argument alone. An extension that
  equals a key of the table up to letter case (the leading dot included) gets that key's
  language tag; an extension that equals no key up to letter case gets \<open>plaintext\<close>.
\<close>

theorem map_extension_to_language_case_insensitive:
  "(\<forall>k v. (k, v) \<in> set extension_map \<and> same_ignoring_case extension k
       \<longrightarrow> map_extension_to_language extension = v)
   \<and> ((\<forall>k v. (k, v) \<in> set extension_map \<longrightarrow> \<not> same_ignoring_case extension k)
       \<longrightarrow> map_extension_to_language extension = ''plaintext'')"
proof (intro conjI allI impI)
  fix k v
  assume kv: "(k, v) \<in> set extension_map \<and> same_ignoring_case extension k"
  then have "lower extension = k"
    using extension_map_keys_lower [of k v] by (simp add: same_ignoring_case_lower)
  moreover from kv have "map_of extension_map k = Some v"
    by (simp add: extension_map_distinct)
  ultimately show "map_extension_to_language extension = v"
    by (simp add: map_extension_to_language_def)
next
  assume none: "\<forall>k v. (k, v) \<in> set extension_map \<longrightarrow> \<not> same_ignoring_case extension k"
  have "map_of extension_map (lower extension) = None"
  proof (cases "map_of extension_map (lower extension)")
    case None
    then show ?thesis .
  next
    case (Some v)
    then have mem: "(lower extension, v) \<in> set extension_map"
      by (rule map_of_SomeD)
    then have "lower (lower extension) = lower extension"
      by (rule extension_map_keys_lower)
    then have "same_ignoring_case extension (lower extension)"
      by (simp add: same_ignoring_case_lower)
    with none mem show ?thesis by blast
  qed
  then show "map_extension_to_language extension = ''plaintext''"
    by (simp add: map_extension_to_language_def)
qed

theorem map_extension_to_language_case_insensitive_witness:
  "map_extension_to_language ''.TSX'' = ''tsx''
   \<and> map_extension_to_language ''.py'' = ''plaintext''"
proof -
  have a: "(''.tsx'', ''tsx'') \<in> set extension_map \<and> same_ignoring_case ''.TSX'' ''.tsx''"
    by code_simp
  have py: "lower ''.py'' = ''.py''" by code_simp
  have b: "\<forall>k v. (k, v) \<in> set extension_map \<longrightarrow> \<not> same_ignoring_case ''.py'' k"
  proof (intro allI impI)
    fix k v
    assume m: "(k, v) \<in> set extension_map"
    then have "lower k = k" by (rule extension_map_keys_lower)
    moreover from m have "k \<noteq> ''.py''" by (auto simp: extension_map_def)
    ultimately show "\<not> same_ignoring_case ''.py'' k"
      using py by (simp add: same_ignoring_case_lower)
  qed
  from map_extension_to_language_case_insensitive [of "''.TSX''"] a
  have "map_extension_to_language ''.TSX'' = ''tsx''" by blast
  moreover from map_extension_to_language_case_insensitive [of "''.py''"] b
  have "map_extension_to_language ''.py'' = ''plaintext''" by blast
  ultimately show ?thesis by simp
qed

section \<open>The loops and their closed forms\<close>

lemma write_file_passes:
  "passes tok (d, n, c) \<Longrightarrow>
   write_file tok root d n c acc =
     Inr (acc\<lparr>out_text := out_text acc @ block_text (d, n, c),
             folder_lines := folder_lines acc + file_lines (d, n, c),
             folder_tokens := folder_tokens acc + file_tokens tok (d, n, c),
             printed := printed acc @ [file_message tok (d, n, c)]\<rparr>)"
  by (cases c) (auto simp: write_file_def Let_def)

lemma write_file_fails:
  "\<not> passes tok (d, n, c) \<Longrightarrow> \<exists>e. write_file tok root d n c acc = Inl e"
  by (cases c) (auto simp: write_file_def Let_def)

lemma write_files_passes:
  "list_all (passes tok) (map (\<lambda>(f, c). (d, f, c)) fs) \<Longrightarrow>
   write_files tok root d fs acc = Inr (after_files tok (map (\<lambda>(f, c). (d, f, c)) fs) acc)"
proof (induction fs arbitrary: acc)
  case Nil
  then show ?case by (simp add: after_files_def)
next
  case (Cons x fs)
  obtain f c where x: "x = (f, c)" by (cases x)
  from Cons.prems x have p: "passes tok (d, f, c)"
    and rest: "list_all (passes tok) (map (\<lambda>(f, c). (d, f, c)) fs)"
    by simp_all
  show ?case
    by (simp add: x write_file_passes [OF p] Cons.IH [OF rest] after_files_def)
qed

lemma write_files_fails:
  "\<not> list_all (passes tok) (map (\<lambda>(f, c). (d, f, c)) fs) \<Longrightarrow>
   \<exists>e. write_files tok root d fs acc = Inl e"
proof (induction fs arbitrary: acc)
  case Nil
  then show ?case by simp
next
  case (Cons x fs)
  obtain f c where x: "x = (f, c)" by (cases x)
  show ?case
  proof (cases "passes tok (d, f, c)")
    case True
    with Cons.prems x have "\<not> list_all (passes tok) (map (\<lambda>(f, c). (d, f, c)) fs)"
      by simp
    from Cons.IH [OF this] show ?thesis
      by (simp add: x write_file_passes [OF True])
  next
    case False
    from write_file_fails [OF this] obtain e where "write_file tok root d f c acc = Inl e" ..
    then show ?thesis by (simp add: x)
  qed
qed

lemma relpath_label:
  "root \<noteq> [] \<Longrightarrow> relpath (cwd cfg) root (src_dir cfg) = Some (label cfg root)"
  by (simp add: relpath_def label_def Let_def)

lemma relpath_empty: "relpath c [] s = None"
  by (simp add: relpath_def)

lemma matched_Nil [simp]: "matched cfg [] = []"
  by (simp add: matched_def)

lemma matched_Cons:
  "matched cfg ((root, fs) # items) =
     map (\<lambda>(f, c). (label cfg root, f, c)) (filter (\<lambda>(f, c). included f) fs)
     @ matched cfg items"
  by (simp add: matched_def)

lemma matched_append: "matched cfg (xs @ ys) = matched cfg xs @ matched cfg ys"
  by (simp add: matched_def)

lemma consolidate_walk_passes:
  "rooted items \<Longrightarrow> list_all (passes tok) (matched cfg items) \<Longrightarrow>
   consolidate_walk tok cfg items acc = Inr (after_walk tok (matched cfg items) acc)"
proof (induction items arbitrary: acc)
  case Nil
  then show ?case by (simp add: after_walk_def)
next
  case (Cons item items)
  obtain root fs where item: "item = (root, fs)" by (cases item)
  let ?inc = "filter (\<lambda>(f, c). included f) fs"
  from Cons.prems(1) item have root: "root \<noteq> []" and rooted: "rooted items"
    by (simp_all add: rooted_def)
  from Cons.prems(2) item
  have here: "list_all (passes tok) (map (\<lambda>(f, c). (label cfg root, f, c)) ?inc)"
    and rest: "list_all (passes tok) (matched cfg items)"
    by (simp_all add: matched_Cons)
  show ?case
  proof (cases "?inc = []")
    case True
    then show ?thesis
      by (simp add: item relpath_label [OF root] matched_Cons Cons.IH [OF rooted rest]
          after_walk_def Let_def)
  next
    case False
    then show ?thesis
      by (simp add: item relpath_label [OF root] matched_Cons write_files_passes [OF here]
          Cons.IH [OF rooted rest] after_walk_def after_files_def Let_def)
  qed
qed

lemma consolidate_walk_fails:
  "\<not> (rooted items \<and> list_all (passes tok) (matched cfg items)) \<Longrightarrow>
   \<exists>e. consolidate_walk tok cfg items acc = Inl e"
proof (induction items arbitrary: acc)
  case Nil
  then show ?case by (simp add: rooted_def)
next
  case (Cons item items)
  obtain root fs where item: "item = (root, fs)" by (cases item)
  let ?inc = "filter (\<lambda>(f, c). included f) fs"
  show ?case
  proof (cases "root = []")
    case True
    then show ?thesis by (simp add: item relpath_empty)
  next
    case root: False
    show ?thesis
    proof (cases "list_all (passes tok) (map (\<lambda>(f, c). (label cfg root, f, c)) ?inc)")
      case True
      with Cons.prems item root
      have "\<not> (rooted items \<and> list_all (passes tok) (matched cfg items))"
        by (simp add: matched_Cons rooted_def)
      from Cons.IH [OF this] show ?thesis
        by (simp add: item relpath_label [OF root] write_files_passes [OF True] Let_def)
    next
      case False
      then have ne: "?inc \<noteq> []" by auto
      from write_files_fails [OF False] obtain e
        where "write_files tok root (label cfg root) ?inc
                 (acc\<lparr>included_files_count := included_files_count acc + length ?inc\<rparr>) = Inl e" ..
      with ne show ?thesis by (simp add: item relpath_label [OF root] Let_def)
    qed
  qed
qed

lemma join_nonempty: "a \<noteq> [] \<Longrightarrow> join a b \<noteq> []"
  by (auto simp: join_def prefix_def)

lemma walk_rooted:
  "root \<noteq> [] \<Longrightarrow> rooted (walk root es)"
  "root \<noteq> [] \<Longrightarrow> rooted (walk_dirs root es)"
proof (induction root es and root es rule: walk_walk_dirs.induct)
  case (1 root es)
  then show ?case by (simp add: rooted_def)
next
  case (2 root)
  then show ?case by (simp add: rooted_def)
next
  case (3 root n c es)
  then show ?case by simp
next
  case (4 root n sub es)
  then show ?case by (simp add: rooted_def join_nonempty del: walk.simps)
qed

lemma walk_rooted_iff: "rooted (walk root es) \<longleftrightarrow> root \<noteq> []"
proof
  assume "rooted (walk root es)"
  then show "root \<noteq> []" by (simp add: rooted_def)
next
  assume "root \<noteq> []"
  then show "rooted (walk root es)" by (rule walk_rooted)
qed

lemma process_folder_skips:
  "\<not> is_dir src main_folder \<Longrightarrow>
   process_folder tok cfg src main_folder st = Inr (after_folder tok cfg src main_folder st)"
  by (auto simp: process_folder_def after_folder_def is_dir_def split: option.splits tree.splits)

lemma process_folder_passes:
  assumes "is_dir src main_folder" and "folder_passes tok cfg src main_folder"
  shows "process_folder tok cfg src main_folder st = Inr (after_folder tok cfg src main_folder st)"
proof -
  from assms(1) obtain entries where src: "src main_folder = Some (Dir entries)"
    by (auto simp: is_dir_def split: option.splits tree.splits)
  then have ms: "matched cfg (walk (join (src_dir cfg) main_folder) entries)
      = matched_files cfg src main_folder"
    by (simp add: matched_files_def folder_entries_def del: walk.simps)
  from assms(2) have r: "rooted (walk (join (src_dir cfg) main_folder) entries)"
    by (simp add: folder_passes_def walk_rooted_iff del: walk.simps)
  from assms(2)
  have "list_all (passes tok) (matched cfg (walk (join (src_dir cfg) main_folder) entries))"
    by (simp add: folder_passes_def ms del: walk.simps)
  from consolidate_walk_passes [OF r this] show ?thesis
    unfolding ms
    by (simp add: process_folder_def src after_folder_def assms(1) after_walk_def read_text_def
        artifact_text_def written_text_def lines_of_def tokens_of_def Let_def
        del: walk.simps)
qed

lemma process_folder_fails:
  assumes "is_dir src main_folder" and "\<not> folder_passes tok cfg src main_folder"
  shows "\<exists>e. process_folder tok cfg src main_folder st = Inl e"
proof -
  from assms(1) obtain entries where src: "src main_folder = Some (Dir entries)"
    by (auto simp: is_dir_def split: option.splits tree.splits)
  then have ms: "matched cfg (walk (join (src_dir cfg) main_folder) entries)
      = matched_files cfg src main_folder"
    by (simp add: matched_files_def folder_entries_def del: walk.simps)
  from assms(2)
  have "\<not> (rooted (walk (join (src_dir cfg) main_folder) entries)
      \<and> list_all (passes tok) (matched cfg (walk (join (src_dir cfg) main_folder) entries)))"
    by (simp add: folder_passes_def ms walk_rooted_iff del: walk.simps)
  from consolidate_walk_fails [OF this] obtain e where
    "consolidate_walk tok cfg (walk (join (src_dir cfg) main_folder) entries)
       \<lparr>out_text = old_header main_folder @ nl @ second_header main_folder,
        folder_lines = 0, folder_tokens = 0, included_files_count = 0, printed = []\<rparr> = Inl e" ..
  then show ?thesis
    by (simp add: process_folder_def src Let_def del: walk.simps)
qed

lemma process_folders_passes:
  "list_all (folder_passes tok cfg src) (processed src folders) \<Longrightarrow>
   process_folders tok cfg src folders st = Inr (fold (after_folder tok cfg src) folders st)"
proof (induction folders arbitrary: st)
  case Nil
  then show ?case by simp
next
  case (Cons f folders)
  show ?case
  proof (cases "is_dir src f")
    case True
    with Cons.prems have p: "folder_passes tok cfg src f"
      and rest: "list_all (folder_passes tok cfg src) (processed src folders)"
      by (simp_all add: processed_def)
    show ?thesis
      by (simp add: process_folder_passes [OF True p] Cons.IH [OF rest])
  next
    case False
    with Cons.prems have rest: "list_all (folder_passes tok cfg src) (processed src folders)"
      by (simp add: processed_def)
    show ?thesis
      by (simp add: process_folder_skips [OF False] Cons.IH [OF rest])
  qed
qed

lemma process_folders_fails:
  "\<not> list_all (folder_passes tok cfg src) (processed src folders) \<Longrightarrow>
   \<exists>e. process_folders tok cfg src folders st = Inl e"
proof (induction folders arbitrary: st)
  case Nil
  then show ?case by (simp add: processed_def)
next
  case (Cons f folders)
  show ?case
  proof (cases "is_dir src f")
    case dir: True
    show ?thesis
    proof (cases "folder_passes tok cfg src f")
      case True
      with dir Cons.prems have "\<not> list_all (folder_passes tok cfg src) (processed src folders)"
        by (simp add: processed_def)
      from Cons.IH [OF this] show ?thesis
        by (simp add: process_folder_passes [OF dir True])
    next
      case False
      from process_folder_fails [OF dir False] obtain e
        where "process_folder tok cfg src f st = Inl e" ..
      then show ?thesis by simp
    qed
  next
    case False
    with Cons.prems have "\<not> list_all (folder_passes tok cfg src) (processed src folders)"
      by (simp add: processed_def)
    from Cons.IH [OF this] show ?thesis
      by (simp add: process_folder_skips [OF False])
  qed
qed

lemma fold_total_lines:
  "total_lines_of_code (fold (after_folder tok cfg src) folders st) =
     total_lines_of_code st + sum_list (map (lines_of cfg src) (processed src folders))"
  by (induction folders arbitrary: st) (simp_all add: processed_def after_folder_def)

lemma fold_total_tokens:
  "total_tokens (fold (after_folder tok cfg src) folders st) =
     total_tokens st + sum_list (map (tokens_of tok cfg src) (processed src folders))"
  by (induction folders arbitrary: st) (simp_all add: processed_def after_folder_def)

lemma fold_consolidated_files:
  "consolidated_files (fold (after_folder tok cfg src) folders st) =
     consolidated_files st @ map (artifact_path cfg) (processed src folders)"
  by (induction folders arbitrary: st) (simp_all add: processed_def after_folder_def)

lemma fold_files:
  "files (fold (after_folder tok cfg src) folders st) =
     store_artifacts cfg src (processed src folders) (files st)"
  by (induction folders arbitrary: st)
    (simp_all add: processed_def after_folder_def store_artifacts_def)

lemma fold_folder_summary:
  "folder_summary (fold (after_folder tok cfg src) folders st) =
     fold (\<lambda>f. AList.update f (lines_of cfg src f, tokens_of tok cfg src f))
       (processed src folders) (folder_summary st)"
  by (induction folders arbitrary: st) (simp_all add: processed_def after_folder_def)

lemma store_artifacts_dom:
  "dom (store_artifacts cfg src folders fs) = dom fs \<union> artifact_path cfg ` set folders"
  unfolding store_artifacts_def
  by (induction folders arbitrary: fs) auto

lemma master_sections_ok:
  "set cfs \<subseteq> dom fs \<Longrightarrow> master_sections fs cfs = Inr (sections_text fs cfs)"
  by (induction cfs) (auto simp: sections_text_def read_text_def)

lemma write_master_ok:
  "set (consolidated_files st) \<subseteq> dom (files st) \<Longrightarrow>
   write_master cfg st = Inr (after_master cfg st)"
proof -
  assume "set (consolidated_files st) \<subseteq> dom (files st)"
  then have "set (consolidated_files st) \<subseteq> dom ((files st)(master_path cfg \<mapsto> []))"
    by auto
  from master_sections_ok [OF this] show ?thesis
    by (simp add: write_master_def after_master_def master_text_def Let_def)
qed

lemma folders_written:
  "set (consolidated_files (fold (after_folder tok cfg src) folders (initial_state fs)))
     \<subseteq> dom (files (fold (after_folder tok cfg src) folders (initial_state fs)))"
  by (auto simp: fold_consolidated_files fold_files store_artifacts_dom initial_state_def)

lemma run_ok:
  "run_passes tok cfg src \<Longrightarrow>
   consolidate_nextjs_files tok cfg src fs = Inr (after_run tok cfg src fs)"
  unfolding run_passes_def
  by (simp add: consolidate_nextjs_files_def configured_def [symmetric] process_folders_passes
      write_master_ok [OF folders_written] after_run_def)

lemma run_aborts:
  "\<not> run_passes tok cfg src \<Longrightarrow> \<exists>e. consolidate_nextjs_files tok cfg src fs = Inl e"
proof -
  assume "\<not> run_passes tok cfg src"
  then have "\<not> list_all (folder_passes tok cfg src) (processed src (configured cfg))"
    by (simp add: run_passes_def)
  from process_folders_fails [OF this] obtain e
    where "process_folders tok cfg src (configured cfg) (initial_state fs) = Inl e" ..
  then show ?thesis
    by (simp add: consolidate_nextjs_files_def configured_def [symmetric])
qed

lemma run_result:
  "consolidate_nextjs_files tok cfg src fs = Inr st \<Longrightarrow>
   run_passes tok cfg src \<and> st = after_run tok cfg src fs"
proof (cases "run_passes tok cfg src")
  case True
  assume "consolidate_nextjs_files tok cfg src fs = Inr st"
  with run_ok [OF True, of fs] True show ?thesis by simp
next
  case False
  assume r: "consolidate_nextjs_files tok cfg src fs = Inr st"
  from run_aborts [OF False, of fs] r show ?thesis by auto
qed

section \<open>The example run\<close>

lemma ex_processed: "processed ex_src (configured ex_cfg) = [''lib'', ''docs'']"
  by code_simp

lemma ex_matched_lib:
  "matched_files ex_cfg ex_src ''lib'' =
     [(''lib'', ''a.ts'', Text (''x'' @ nl @ ''y'')), (''lib'', ''readme.md'', Text ''hi''),
      (''lib/sub'', ''c.json'', Undecodable)]"
  by code_simp

lemma ex_matched_docs: "matched_files ex_cfg ex_src ''docs'' = []"
  by code_simp

lemma ex_run_passes: "run_passes ex_tok ex_cfg ex_src"
  by (simp add: run_passes_def ex_processed folder_passes_def ex_matched_lib ex_matched_docs ex_tok_def)
    code_simp

section \<open>The end state of a run\<close>

lemma fold_update_keys:
  "fst ` set (fold (\<lambda>f. AList.update f (v f)) fs al) = fst ` set al \<union> set fs"
  by (induction fs arbitrary: al) (auto simp: dom_update)

lemma after_run_total_lines:
  "total_lines_of_code (after_run tok cfg src fs) =
     sum_list (map (lines_of cfg src) (processed src (configured cfg)))"
  by (simp add: after_run_def report_def after_master_def fold_total_lines initial_state_def)

lemma after_run_total_tokens:
  "total_tokens (after_run tok cfg src fs) =
     sum_list (map (tokens_of tok cfg src) (processed src (configured cfg)))"
  by (simp add: after_run_def report_def after_master_def fold_total_tokens initial_state_def)

lemma after_run_consolidated_files:
  "consolidated_files (after_run tok cfg src fs) =
     map (artifact_path cfg) (processed src (configured cfg))"
  by (simp add: after_run_def report_def after_master_def fold_consolidated_files initial_state_def)

lemma after_run_folder_summary:
  "folder_summary (after_run tok cfg src fs) =
     fold (\<lambda>f. AList.update f (lines_of cfg src f, tokens_of tok cfg src f))
       (processed src (configured cfg)) []"
  by (simp add: after_run_def report_def after_master_def fold_folder_summary initial_state_def)

lemma after_run_files:
  "files (after_run tok cfg src fs) =
     (store_artifacts cfg src (processed src (configured cfg)) fs)
       (master_path cfg \<mapsto>
          manifest (map (artifact_path cfg) (processed src (configured cfg)))
          @ statistics (sum_list (map (lines_of cfg src) (processed src (configured cfg))))
              (sum_list (map (tokens_of tok cfg src) (processed src (configured cfg))))
          @ sections_text
              ((store_artifacts cfg src (processed src (configured cfg)) fs)(master_path cfg \<mapsto> []))
              (map (artifact_path cfg) (processed src (configured cfg))))"
  by (simp add: after_run_def report_def after_master_def master_text_def fold_files
      fold_consolidated_files fold_total_lines fold_total_tokens initial_state_def)

section \<open>Folders that are skipped\<close>

text \<open>
  Claim C2. A configured folder that does not exist under the source root, or is not a
  directory, only gets a warning: its turn of the loop changes nothing else (no file is
  written, no total moves), and at the end of the run it has no entry in the folder
  summary, the totals are the sums over the other folders, and the list of artifacts the
  manifest is written from holds the processed folders' artifacts only.
\<close>

theorem missing_folder_skipped:
  assumes "src main_folder = None \<or> (\<exists>c. src main_folder = Some (File c))"
    and "consolidate_nextjs_files tok cfg src fs = Inr final"
  shows "process_folder tok cfg src main_folder st =
           Inr (st\<lparr>log := log st @
                  [''Warning: Folder '' @ squote @ main_folder @ squote
                   @ '' does not exist in '' @ src_dir cfg]\<rparr>)
         \<and> main_folder \<notin> fst ` set (folder_summary final)
         \<and> main_folder \<notin> set (processed src (configured cfg))
         \<and> consolidated_files final = map (artifact_path cfg) (processed src (configured cfg))
         \<and> total_lines_of_code final = sum_list (map (lines_of cfg src) (processed src (configured cfg)))
         \<and> total_tokens final = sum_list (map (tokens_of tok cfg src) (processed src (configured cfg)))
         \<and> (\<exists>rest. files final (master_path cfg)
               = Some (manifest (map (artifact_path cfg) (processed src (configured cfg))) @ rest))"
proof -
  from assms(1) have nd: "\<not> is_dir src main_folder"
    by (auto simp: is_dir_def)
  from run_result [OF assms(2)] have final: "final = after_run tok cfg src fs" ..
  have "process_folder tok cfg src main_folder st =
          Inr (st\<lparr>log := log st @
                 [''Warning: Folder '' @ squote @ main_folder @ squote
                  @ '' does not exist in '' @ src_dir cfg]\<rparr>)"
    by (simp add: process_folder_skips [OF nd] after_folder_def nd)
  moreover from nd have np: "main_folder \<notin> set (processed src (configured cfg))"
    by (simp add: processed_def)
  moreover from np have "main_folder \<notin> fst ` set (folder_summary final)"
    by (simp add: final after_run_folder_summary fold_update_keys)
  moreover have "\<exists>rest. files final (master_path cfg)
      = Some (manifest (map (artifact_path cfg) (processed src (configured cfg))) @ rest)"
    by (simp add: final after_run_files)
  ultimately show ?thesis
    by (simp add: final after_run_consolidated_files after_run_total_lines after_run_total_tokens)
qed

theorem missing_folder_skipped_witness:
  "process_folder ex_tok ex_cfg ex_src ''missing'' (initial_state Map.empty) =
     Inr ((initial_state Map.empty)\<lparr>log := [''Warning: Folder '' @ squote @ ''missing'' @ squote
                   @ '' does not exist in src'']\<rparr>)
   \<and> ''missing'' \<notin> fst ` set (folder_summary (after_run ex_tok ex_cfg ex_src Map.empty))
   \<and> consolidated_files (after_run ex_tok ex_cfg ex_src Map.empty)
       = [''out/lib_consolidated.txt'', ''out/docs_consolidated.txt'']"
proof -
  have a: "ex_src ''missing'' = None \<or> (\<exists>c. ex_src ''missing'' = Some (File c))"
    by (simp add: ex_src_def)
  have paths: "artifact_path ex_cfg ''lib'' = ''out/lib_consolidated.txt''"
    "artifact_path ex_cfg ''docs'' = ''out/docs_consolidated.txt''"
    by code_simp+
  have sd: "src_dir ex_cfg = ''src''"
    by (simp add: ex_cfg_def)
  from missing_folder_skipped [OF a run_ok [OF ex_run_passes, of Map.empty],
      where st = "initial_state Map.empty"]
  show ?thesis
    by (simp add: ex_processed paths initial_state_def sd)
qed

section \<open>The walk and the extension filter\<close>







section \<open>The header rewrite\<close>













section \<open>The artifact of a folder\<close>

lemma lines_decoded:
  "sum_list (map file_lines ms) = sum_list (map (\<lambda>s. length (splitlines s)) (decoded ms))"
  by (induction ms rule: decoded.induct) simp_all

lemma tokens_decoded:
  "sum_list (map (file_tokens tok) ms)
     = sum_list (map (\<lambda>s. case tok s of Some n \<Rightarrow> n | None \<Rightarrow> 0) (decoded ms))"
  by (induction ms rule: decoded.induct) simp_all

lemma tokens_decoded_passes:
  "list_all (passes tok) ms \<Longrightarrow>
   sum_list (map (file_tokens tok) ms) = sum_list (map (\<lambda>s. the (tok s)) (decoded ms))"
  by (induction ms rule: decoded.induct) auto






lemma after_folder_artifact:
  "is_dir src main_folder \<Longrightarrow>
   files (after_folder tok cfg src main_folder st) (artifact_path cfg main_folder)
     = Some (artifact_text cfg src main_folder)"
  by (simp add: after_folder_def)





section \<open>Totals\<close>

lemma update_new: "k \<notin> fst ` set al \<Longrightarrow> AList.update k v al = al @ [(k, v)]"
  by (induction al) auto

lemma fold_update_distinct:
  "distinct fs \<Longrightarrow> set fs \<inter> fst ` set al = {} \<Longrightarrow>
   fold (\<lambda>f. AList.update f (v f)) fs al = al @ map (\<lambda>f. (f, v f)) fs"
proof (induction fs arbitrary: al)
  case Nil
  then show ?case by simp
next
  case (Cons f fs)
  from Cons.prems have new: "f \<notin> fst ` set al" by auto
  from Cons.prems have "distinct fs" and "set fs \<inter> fst ` set (al @ [(f, v f)]) = {}"
    by auto
  from Cons.IH [OF this] show ?case
    by (simp add: update_new [OF new])
qed

lemma folder_sums:
  assumes "run_passes tok cfg src" and "f \<in> set (processed src (configured cfg))"
  shows "lines_of cfg src f = sum_list (map (\<lambda>s. length (splitlines s)) (decoded (matched_files cfg src f)))"
    and "tokens_of tok cfg src f = sum_list (map (\<lambda>s. the (tok s)) (decoded (matched_files cfg src f)))"
proof -
  from assms have "list_all (passes tok) (matched_files cfg src f)"
    by (simp add: run_passes_def list_all_iff folder_passes_def)
  then show "tokens_of tok cfg src f = sum_list (map (\<lambda>s. the (tok s)) (decoded (matched_files cfg src f)))"
    by (simp add: tokens_of_def tokens_decoded_passes)
  show "lines_of cfg src f = sum_list (map (\<lambda>s. length (splitlines s)) (decoded (matched_files cfg src f)))"
    by (simp add: lines_of_def lines_decoded)
qed

text \<open>
  Claim C4, amended. At the end of a run the total line count is the sum, over the
  processed folders in configured order and over the matched files of each that decoded,
  of the number of lines of the text; the total token count is the sum of the tokenizer's
  results over the same texts; and, when no processed folder is configured twice, each
  total is the sum of its field over the entries of the folder summary.
\<close>

theorem totals_are_sums:
  assumes "consolidate_nextjs_files tok cfg src fs = Inr final"
  shows "total_lines_of_code final =
           sum_list (map (\<lambda>f. sum_list (map (\<lambda>s. length (splitlines s))
                                   (decoded (matched_files cfg src f))))
                      (processed src (configured cfg)))
         \<and> total_tokens final =
           sum_list (map (\<lambda>f. sum_list (map (\<lambda>s. the (tok s))
                                   (decoded (matched_files cfg src f))))
                      (processed src (configured cfg)))
         \<and> (distinct (processed src (configured cfg)) \<longrightarrow>
              total_lines_of_code final = sum_list (map (fst \<circ> snd) (folder_summary final))
              \<and> total_tokens final = sum_list (map (snd \<circ> snd) (folder_summary final)))"
proof -
  from run_result [OF assms] have p: "run_passes tok cfg src"
    and final: "final = after_run tok cfg src fs" by simp_all
  have l: "map (lines_of cfg src) (processed src (configured cfg))
      = map (\<lambda>f. sum_list (map (\<lambda>s. length (splitlines s)) (decoded (matched_files cfg src f))))
          (processed src (configured cfg))"
    by (rule map_cong [OF refl]) (rule folder_sums(1) [OF p])
  have t: "map (tokens_of tok cfg src) (processed src (configured cfg))
      = map (\<lambda>f. sum_list (map (\<lambda>s. the (tok s)) (decoded (matched_files cfg src f))))
          (processed src (configured cfg))"
    by (rule map_cong [OF refl]) (rule folder_sums(2) [OF p])
  have "total_lines_of_code final = sum_list (map (fst \<circ> snd) (folder_summary final))
        \<and> total_tokens final = sum_list (map (snd \<circ> snd) (folder_summary final))"
    if d: "distinct (processed src (configured cfg))"
  proof -
    from d have "folder_summary final
        = map (\<lambda>f. (f, (lines_of cfg src f, tokens_of tok cfg src f))) (processed src (configured cfg))"
      by (simp add: final after_run_folder_summary fold_update_distinct)
    then show ?thesis
      by (simp add: final after_run_total_lines after_run_total_tokens comp_def)
  qed
  then show ?thesis
    by (simp add: final after_run_total_lines after_run_total_tokens l t)
qed

theorem totals_are_sums_witness:
  "total_lines_of_code (after_run ex_tok ex_cfg ex_src Map.empty) = 3
   \<and> total_tokens (after_run ex_tok ex_cfg ex_src Map.empty) = 5
   \<and> sum_list (map (fst \<circ> snd) (folder_summary (after_run ex_tok ex_cfg ex_src Map.empty))) = 3
   \<and> sum_list (map (snd \<circ> snd) (folder_summary (after_run ex_tok ex_cfg ex_src Map.empty))) = 5"
proof -
  have l: "length (splitlines ''x\<newline>y'') = 2" "length (splitlines ''hi'') = 1"
    by code_simp+
  have d: "distinct (processed ex_src (configured ex_cfg))"
    by (simp add: ex_processed)
  from totals_are_sums [OF run_ok [OF ex_run_passes, of Map.empty]] d
  show ?thesis
    by (simp add: ex_processed ex_matched_lib ex_matched_docs l ex_tok_def nl_def)
qed

text \<open>
  Claim C4 as stated fails when a folder is configured twice: the totals count it twice,
  the summary, keyed by folder name, once.
\<close>

theorem totals_counterexample:
  "consolidate_nextjs_files ex_tok dup_cfg ex_src Map.empty
     = Inr (after_run ex_tok dup_cfg ex_src Map.empty)
   \<and> total_lines_of_code (after_run ex_tok dup_cfg ex_src Map.empty) = 6
   \<and> sum_list (map (fst \<circ> snd) (folder_summary (after_run ex_tok dup_cfg ex_src Map.empty))) = 3
   \<and> total_tokens (after_run ex_tok dup_cfg ex_src Map.empty) = 10
   \<and> sum_list (map (snd \<circ> snd) (folder_summary (after_run ex_tok dup_cfg ex_src Map.empty))) = 5"
proof -
  have pr: "processed ex_src (configured dup_cfg) = [''lib'', ''lib'']"
    by code_simp
  have "folder_passes ex_tok dup_cfg ex_src ''lib''"
    by code_simp
  then have p: "run_passes ex_tok dup_cfg ex_src"
    by (simp add: run_passes_def pr)
  have l: "lines_of dup_cfg ex_src ''lib'' = 3" "tokens_of ex_tok dup_cfg ex_src ''lib'' = 5"
    by code_simp+
  show ?thesis
    by (simp add: run_ok [OF p] after_run_total_lines after_run_total_tokens
        after_run_folder_summary pr l)
qed

section \<open>Running again\<close>

lemma store_artifacts_add:
  "store_artifacts cfg src folders (g ++ h) = g ++ store_artifacts cfg src folders h"
  unfolding store_artifacts_def
  by (induction folders arbitrary: h) (simp_all flip: map_add_upd)

lemma map_add_twice: "(g ++ h) ++ h = g ++ h"
  by (rule ext) (simp add: map_add_def split: option.splits)

lemma store_artifacts_over:
  "store_artifacts cfg src folders g = g ++ store_artifacts cfg src folders Map.empty"
  using store_artifacts_add [of cfg src folders g Map.empty] by simp

lemma sections_text_cong:
  "(\<And>cf. cf \<in> set cfs \<Longrightarrow> m cf = m' cf) \<Longrightarrow> sections_text m cfs = sections_text m' cfs"
  unfolding sections_text_def
  by (induction cfs) simp_all

lemma after_folder_files:
  "after_folder tok cfg src f (st\<lparr>files := g\<rparr>)
     = (after_folder tok cfg src f st)
         \<lparr>files := (if is_dir src f then g(artifact_path cfg f \<mapsto> artifact_text cfg src f) else g)\<rparr>"
  by (simp add: after_folder_def)

lemma fold_after_folder_files:
  "fold (after_folder tok cfg src) folders (st\<lparr>files := g\<rparr>)
     = (fold (after_folder tok cfg src) folders st)
         \<lparr>files := store_artifacts cfg src (processed src folders) g\<rparr>"
proof (induction folders arbitrary: st g)
  case Nil
  then show ?case by (simp add: processed_def store_artifacts_def)
next
  case (Cons f folders)
  have "fold (after_folder tok cfg src) (f # folders) (st\<lparr>files := g\<rparr>)
      = fold (after_folder tok cfg src) folders
          ((after_folder tok cfg src f st)
            \<lparr>files := (if is_dir src f then g(artifact_path cfg f \<mapsto> artifact_text cfg src f) else g)\<rparr>)"
    by (simp only: fold_simps after_folder_files)
  also have "\<dots> = (fold (after_folder tok cfg src) folders (after_folder tok cfg src f st))
      \<lparr>files := store_artifacts cfg src (processed src folders)
          (if is_dir src f then g(artifact_path cfg f \<mapsto> artifact_text cfg src f) else g)\<rparr>"
    by (rule Cons.IH)
  finally show ?case
    by (simp add: processed_def store_artifacts_def)
qed

lemma after_run_files_only:
  "after_run tok cfg src g = (after_run tok cfg src fs)\<lparr>files := files (after_run tok cfg src g)\<rparr>"
proof -
  have i: "initial_state g = (initial_state fs)\<lparr>files := g\<rparr>" for g
    by (simp add: initial_state_def)
  have "fold (after_folder tok cfg src) (configured cfg) (initial_state g)
      = (fold (after_folder tok cfg src) (configured cfg) (initial_state fs))
          \<lparr>files := store_artifacts cfg src (processed src (configured cfg)) g\<rparr>"
    by (subst i) (rule fold_after_folder_files)
  then show ?thesis
    by (simp add: after_run_def report_def after_master_def)
qed

lemma sections_independent:
  "sections_text
     ((store_artifacts cfg src (processed src (configured cfg)) g)(master_path cfg \<mapsto> []))
     (map (artifact_path cfg) (processed src (configured cfg)))
   = master_sections_text cfg src"
  unfolding master_sections_text_def
proof (rule sections_text_cong)
  fix cf
  assume "cf \<in> set (map (artifact_path cfg) (processed src (configured cfg)))"
  then have "cf \<in> dom (store_artifacts cfg src (processed src (configured cfg)) Map.empty)"
    by (simp add: store_artifacts_dom)
  then show "((store_artifacts cfg src (processed src (configured cfg)) g)(master_path cfg \<mapsto> [])) cf
      = ((store_artifacts cfg src (processed src (configured cfg)) Map.empty)(master_path cfg \<mapsto> [])) cf"
    by (subst store_artifacts_over) (auto simp: map_add_def split: option.splits)
qed

lemma after_run_files_outputs:
  "files (after_run tok cfg src g) = g ++ outputs tok cfg src"
  unfolding after_run_files sections_independent outputs_def
  by (subst store_artifacts_over) simp

text \<open>
  Claim C9. The tree and the tokenizer being the same (they are the same arguments), a
  second run that starts from the files the first run left ends as the first did, with
  the same files: every per-folder artifact and the master are written again with the
  same text, whatever was there before.
\<close>

theorem rerun_gives_same_artifacts:
  assumes "consolidate_nextjs_files tok cfg src fs = Inr st"
  shows "consolidate_nextjs_files tok cfg src (files st) = Inr st
         \<and> (\<forall>fs'. \<exists>st'. consolidate_nextjs_files tok cfg src fs' = Inr st'
               \<and> files st' (master_path cfg) = files st (master_path cfg)
               \<and> (\<forall>f \<in> set (processed src (configured cfg)).
                     files st' (artifact_path cfg f) = files st (artifact_path cfg f)))"
proof -
  from run_result [OF assms] have p: "run_passes tok cfg src"
    and st: "st = after_run tok cfg src fs" by simp_all
  have "files (after_run tok cfg src (files st)) = files st"
    by (simp add: st after_run_files_outputs map_add_twice)
  then have "after_run tok cfg src (files st) = st"
    using after_run_files_only [of tok cfg src "files st" fs] by (simp add: st)
  then have again: "consolidate_nextjs_files tok cfg src (files st) = Inr st"
    by (simp add: run_ok [OF p])
  have "\<exists>st'. consolidate_nextjs_files tok cfg src fs' = Inr st'
               \<and> files st' (master_path cfg) = files st (master_path cfg)
               \<and> (\<forall>f \<in> set (processed src (configured cfg)).
                     files st' (artifact_path cfg f) = files st (artifact_path cfg f))" for fs'
  proof (intro exI conjI ballI)
    show "consolidate_nextjs_files tok cfg src fs' = Inr (after_run tok cfg src fs')"
      by (rule run_ok [OF p])
    have m: "master_path cfg \<in> dom (outputs tok cfg src)"
      by (simp add: outputs_def)
    then show "files (after_run tok cfg src fs') (master_path cfg) = files st (master_path cfg)"
      by (auto simp: st after_run_files_outputs map_add_def split: option.splits)
    fix f
    assume "f \<in> set (processed src (configured cfg))"
    then have "artifact_path cfg f \<in> dom (outputs tok cfg src)"
      by (simp add: outputs_def store_artifacts_dom)
    then show "files (after_run tok cfg src fs') (artifact_path cfg f) = files st (artifact_path cfg f)"
      by (auto simp: st after_run_files_outputs map_add_def split: option.splits)
  qed
  with again show ?thesis by blast
qed

theorem rerun_gives_same_artifacts_witness:
  "consolidate_nextjs_files ex_tok ex_cfg ex_src (files (after_run ex_tok ex_cfg ex_src Map.empty))
     = Inr (after_run ex_tok ex_cfg ex_src Map.empty)"
  using rerun_gives_same_artifacts [OF run_ok [OF ex_run_passes, of Map.empty]] by blast

section \<open>The rewrite reaches into the body\<close>

lemma bug_matched:
  "matched_files bug_cfg bug_src ''app'' = [(''app'', ''notes.md'', Text (old_header ''app''))]"
  by code_simp

lemma bug_artifact:
  "artifact_text bug_cfg bug_src ''app'' =
     new_header 1 ''app'' @ nl @ second_header ''app''
     @ file_header ''app'' ''notes.md'' @ fenced ''notes.md'' (new_header 1 ''app'')"
  by code_simp

text \<open>
  Claim C6 fails on the code. A file of the folder \<open>app\<close> whose text is the line
  \<open>// Consolidated files from the "app" folder\<close> is written into the body as it is;
  the rewrite then replaces every occurrence of that line, so the file's block in the
  artifact holds \<open>// Consolidated 1 files from the "app" folder\<close> instead.
\<close>

theorem rewrite_changes_file_content:
  "process_folder ex_tok bug_cfg bug_src ''app'' (initial_state Map.empty)
     = Inr (after_folder ex_tok bug_cfg bug_src ''app'' (initial_state Map.empty))
   \<and> written_text ''app'' (matched_files bug_cfg bug_src ''app'') =
       old_header ''app'' @ nl @ second_header ''app''
       @ file_header ''app'' ''notes.md'' @ fenced ''notes.md'' (old_header ''app'')
   \<and> files (after_folder ex_tok bug_cfg bug_src ''app'' (initial_state Map.empty))
         ''out/app_consolidated.txt'' =
       Some (new_header 1 ''app'' @ nl @ second_header ''app''
             @ file_header ''app'' ''notes.md'' @ fenced ''notes.md'' (new_header 1 ''app''))
   \<and> fenced ''notes.md'' (new_header 1 ''app'') \<noteq> fenced ''notes.md'' (old_header ''app'')"
proof -
  have dir: "is_dir bug_src ''app''"
    by (simp add: is_dir_def bug_src_def)
  have p: "folder_passes ex_tok bug_cfg bug_src ''app''"
    by (simp add: folder_passes_def bug_matched ex_tok_def) code_simp
  have path: "artifact_path bug_cfg ''app'' = ''out/app_consolidated.txt''"
    by code_simp
  have differ: "fenced ''notes.md'' (new_header 1 ''app'') \<noteq> fenced ''notes.md'' (old_header ''app'')"
    by code_simp
  have "files (after_folder ex_tok bug_cfg bug_src ''app'' (initial_state Map.empty))
         ''out/app_consolidated.txt'' = Some (artifact_text bug_cfg bug_src ''app'')"
    using after_folder_artifact [OF dir, of ex_tok bug_cfg "initial_state Map.empty"]
    by (simp add: path)
  then show ?thesis
    using differ
    by (simp add: process_folder_passes [OF dir p] written_text_def bug_matched bug_artifact)
qed

section \<open>The file count in the header\<close>




section \<open>The walk and what it includes\<close>



section \<open>Files that do not decode\<close>





section \<open>Folders without a matched file\<close>






section \<open>The markers of the master file\<close>

text \<open>
  Claim C5 fails on the code. The master derives the folder name of each marker from the
  artifact's path, as \<open>os.path.basename(cf).replace('_consolidated.txt', '')\<close>, and the
  replacement removes every occurrence, not only the suffix the run appended: for the
  configured folder \<open>a_consolidated.txt\<close> the manifest lists the artifact
  \<open>a_consolidated.txt_consolidated.txt\<close> and the artifact's text names the folder, but
  the start and end markers around it name a folder \<open>a\<close>.
\<close>

theorem master_marker_names_other_folder:
  \<open>consolidate_nextjs_files ex_tok cx_cfg cx_src Map.empty
     = Inr (after_run ex_tok cx_cfg cx_src Map.empty)
   \<and> consolidated_files (after_run ex_tok cx_cfg cx_src Map.empty)
       = [''out/a_consolidated.txt_consolidated.txt'']
   \<and> folder_name_of ''out/a_consolidated.txt_consolidated.txt'' = ''a''
   \<and> files (after_run ex_tok cx_cfg cx_src Map.empty) ''out/master_consolidated.txt''
       = Some (''// This master file consolidates 1 main folders from the src directory.\<newline>''
               @ ''// The following folder consolidations are included:\<newline>''
               @ ''// - a_consolidated.txt_consolidated.txt\<newline>''
               @ ''\<newline>''
               @ ''// Project Statistics:\<newline>''
               @ ''// - Total lines of code: 0\<newline>''
               @ ''// - Total tokens: 0\<newline>''
               @ ''\<newline>''
               @ ''// ===== Start of a folder =====\<newline>''
               @ ''\<newline>''
               @ ''// Consolidated 0 files from the "a_consolidated.txt" folder\<newline>''
               @ ''// This file contains all code files within the "a_consolidated.txt" folder and its subfolders.\<newline>''
               @ ''\<newline>''
               @ ''\<newline>''
               @ ''// ===== End of a folder =====\<newline>''
               @ ''\<newline>'')\<close>
proof -
  have p: "run_passes ex_tok cx_cfg cx_src"
    by code_simp
  have run: "consolidate_nextjs_files ex_tok cx_cfg cx_src Map.empty
     = Inr (after_run ex_tok cx_cfg cx_src Map.empty)"
    using p by (rule run_ok)
  have cfs: "consolidated_files (after_run ex_tok cx_cfg cx_src Map.empty)
       = [''out/a_consolidated.txt_consolidated.txt'']"
    by code_simp
  have fn: "folder_name_of ''out/a_consolidated.txt_consolidated.txt'' = ''a''"
    by code_simp
  have m: \<open>files (after_run ex_tok cx_cfg cx_src Map.empty) ''out/master_consolidated.txt''
       = Some (''// This master file consolidates 1 main folders from the src directory.\<newline>''
               @ ''// The following folder consolidations are included:\<newline>''
               @ ''// - a_consolidated.txt_consolidated.txt\<newline>''
               @ ''\<newline>''
               @ ''// Project Statistics:\<newline>''
               @ ''// - Total lines of code: 0\<newline>''
               @ ''// - Total tokens: 0\<newline>''
               @ ''\<newline>''
               @ ''// ===== Start of a folder =====\<newline>''
               @ ''\<newline>''
               @ ''// Consolidated 0 files from the "a_consolidated.txt" folder\<newline>''
               @ ''// This file contains all code files within the "a_consolidated.txt" folder and its subfolders.\<newline>''
               @ ''\<newline>''
               @ ''\<newline>''
               @ ''// ===== End of a folder =====\<newline>''
               @ ''\<newline>'')\<close>
    by code_simp
  from run cfs fn m show ?thesis
    by (simp only: simp_thms)
qed

end
